theory Spec2Isabelle
  imports Complex_Main
begin

section \<open>Compile-time constants and kernel configurations\<close>

text \<open>
  Modelled from the spec: the constant \<open>wmma_tile\<close> is declared in
  \<^verbatim>\<open>kernels/common.hpp\<close>, which is not among the sources.  The spec fixes the MMA tile
  at 16 x 16, and the configuration comments \<^verbatim>\<open>4*4*16 = 256\<close> agree.
\<close>

definition wmma_tile :: nat where
  "wmma_tile = 16"

text \<open>
  Modelled from the spec: the constant \<open>warp_size\<close> is declared in
  \<^verbatim>\<open>kernels/common.hpp\<close>, which is not among the sources.  The kernels and dispatchers
  that declare it locally give it the value 32.
\<close>

definition warp_size :: nat where
  "warp_size = 32"

text \<open>
  Modelled from the spec: the vector type \<open>float8\<close> is declared outside the sources; the
  configuration comment gives it 256 bits, that is 32 bytes.
\<close>

definition sizeof_float8 :: nat where
  "sizeof_float8 = 32"

text \<open>
  Modelled from the spec: the type \<open>half\<close> is declared outside the sources; a
  half-precision number has 2 bytes.
\<close>

definition sizeof_half :: nat where
  "sizeof_half = 2"

text \<open>
  The fields every \<^verbatim>\<open>wmma_config\<close> specialisation has, and the fields the
  warp-tiled specialisations add.  All values are non-negative \<^verbatim>\<open>static constexpr int\<close>s.
\<close>

record wmma_config =
  block_m :: nat
  block_n :: nat
  block_k :: nat
  lds_stride_A :: nat
  lds_stride_B :: nat
  lds_size :: nat
  warps_m :: nat
  warps_n :: nat
  total_warps :: nat

record wmma_tiled_config = wmma_config +
  warp_tile_m :: nat
  warp_tile_n :: nat
  vector_width :: nat

text \<open>\<^verbatim>\<open>wmma_config<kernel_type::wmma_shared>\<close>: the block tile is given, the warp grid derived.\<close>

definition config_s :: wmma_config where
  "config_s =
     (let bm = 128; bn = 64; bk = 64 in
      \<lparr> block_m = bm, block_n = bn, block_k = bk,
        lds_stride_A = bm, lds_stride_B = bn,
        lds_size = (bm * bk) + (bk * bn),
        warps_m = bm div wmma_tile, warps_n = bn div wmma_tile,
        total_warps = (bm div wmma_tile) * (bn div wmma_tile) \<rparr>)"

text \<open>
  The warp-tiled specialisations share one shape: the warp grid and the warp tile are
  given, the block tile is derived from them.
\<close>

definition tiled_config :: "nat \<Rightarrow> nat \<Rightarrow> nat \<Rightarrow> nat \<Rightarrow> nat \<Rightarrow> nat \<Rightarrow> wmma_tiled_config" where
  "tiled_config wm wn wtm wtn bk vw =
     (let bm = wm * wtm * wmma_tile; bn = wn * wtn * wmma_tile in
      \<lparr> block_m = bm, block_n = bn, block_k = bk,
        lds_stride_A = bm, lds_stride_B = bn,
        lds_size = (bm * bk) + (bk * bn),
        warps_m = wm, warps_n = wn, total_warps = wm * wn,
        warp_tile_m = wtm, warp_tile_n = wtn, vector_width = vw \<rparr>)"

text \<open>\<^verbatim>\<open>wmma_config<kernel_type::wmma_opt_1>\<close>\<close>

definition config_o1 :: wmma_tiled_config where
  "config_o1 = tiled_config 4 4 4 4 32 (sizeof_float8 div sizeof_half)"

text \<open>\<^verbatim>\<open>wmma_config<kernel_type::wmma_prefetch>\<close>: \<open>block_k\<close> is one MMA tile.\<close>

definition config_p :: wmma_tiled_config where
  "config_p = tiled_config 4 4 4 4 wmma_tile 16"

text \<open>\<^verbatim>\<open>wmma_config<kernel_type::wmma_shared_warp_buf_vec>\<close>\<close>

definition config_wbv :: wmma_tiled_config where
  "config_wbv = tiled_config 4 4 4 4 32 16"

text \<open>\<^verbatim>\<open>wmma_config<kernel_type::wmma_opt_2>\<close>\<close>

definition config_o2 :: wmma_tiled_config where
  "config_o2 = tiled_config 4 4 4 4 32 (sizeof_float8 div sizeof_half)"









section \<open>Host-side dispatch\<close>

text \<open>
  Modelled from the spec: \<open>ceil_div\<close> is defined in \<^verbatim>\<open>kernels/common.hpp\<close>, which is
  not among the sources; the spec calls it the ceiling division of a matrix extent by the
  block tile size.
\<close>

definition ceil_div :: "nat \<Rightarrow> nat \<Rightarrow> nat" where
  "ceil_div a b = (a + b - 1) div b"

text \<open>
  \<^verbatim>\<open>dim3\<close> holds three \<^verbatim>\<open>uint32_t\<close>; the constructor converts its arguments to that
  type and defaults the missing ones to 1.
\<close>

record dim3 =
  dim_x :: nat
  dim_y :: nat
  dim_z :: nat

definition uint32_t :: "int \<Rightarrow> nat" where
  "uint32_t v = nat (v mod 2 ^ 32)"

definition mk_dim3 :: "int \<Rightarrow> int \<Rightarrow> dim3" where
  "mk_dim3 a b = \<lparr> dim_x = uint32_t a, dim_y = uint32_t b, dim_z = 1 \<rparr>"

text \<open>A kernel launch \<^verbatim>\<open><<<grid_dim, block_dim, 0, stream>>>\<close>.\<close>

record launch =
  grid :: dim3
  block :: dim3

text \<open>
  \<^verbatim>\<open>hgemm_gpu<kernel_type::wmma_naive>\<close>: 4 x 4 warps per block, one 16 x 16 tile per
  warp, so a block covers 64 x 64 elements of C.
\<close>

definition hgemm_gpu_wmma_naive :: "nat \<Rightarrow> nat \<Rightarrow> launch" where
  "hgemm_gpu_wmma_naive M N =
     (let ws = 32;
          block_dim = mk_dim3 (ws * 4) 4;
          grid_dim = mk_dim3 (int (ceil_div M (wmma_tile * dim_x block_dim div nat ws)))
                             (int (ceil_div N (wmma_tile * dim_y block_dim)))
      in \<lparr> grid = grid_dim, block = block_dim \<rparr>)"

text \<open>\<^verbatim>\<open>hgemm_gpu<kernel_type::wmma_shared>\<close>\<close>

definition hgemm_gpu_wmma_shared :: "nat \<Rightarrow> nat \<Rightarrow> launch" where
  "hgemm_gpu_wmma_shared M N =
     (let block_dim = mk_dim3 (int (warp_size * warps_m config_s)) (int (warps_n config_s));
          grid_dim = mk_dim3 (int (ceil_div M (block_m config_s)))
                             (int (ceil_div N (block_n config_s)))
      in \<lparr> grid = grid_dim, block = block_dim \<rparr>)"

text \<open>\<^verbatim>\<open>hgemm_gpu<kernel_type::wmma_prefetch>\<close>\<close>

definition hgemm_gpu_wmma_prefetch :: "nat \<Rightarrow> nat \<Rightarrow> launch" where
  "hgemm_gpu_wmma_prefetch M N =
     (let ws = 32;
          block_dim = mk_dim3 (ws * int (total_warps config_p)) 1;
          grid_dim = mk_dim3 (int (ceil_div M (block_m config_p)))
                             (int (ceil_div N (block_n config_p)))
      in \<lparr> grid = grid_dim, block = block_dim \<rparr>)"

text \<open>\<^verbatim>\<open>hgemm_gpu<kernel_type::wmma_shared_warp_buf_vec>\<close>\<close>

definition hgemm_gpu_wmma_shared_warp_buf_vec :: "nat \<Rightarrow> nat \<Rightarrow> launch" where
  "hgemm_gpu_wmma_shared_warp_buf_vec M N =
     (let block_dim = mk_dim3 (int (warp_size * total_warps config_wbv)) 1;
          grid_dim = mk_dim3 (int (ceil_div M (block_m config_wbv)))
                             (int (ceil_div N (block_n config_wbv)))
      in \<lparr> grid = grid_dim, block = block_dim \<rparr>)"

text \<open>
  \<^verbatim>\<open>hgemm_gpu<kernel_type::wmma_opt_2>\<close> computes the grid itself.
  \<^verbatim>\<open>(M + block_m - 1) / block_m\<close> is evaluated in \<^verbatim>\<open>size_t\<close> (64 bits, wrapping) and
  narrowed to \<^verbatim>\<open>int\<close>; \<^verbatim>\<open>total_blocks = grid_m * grid_n\<close> is an \<^verbatim>\<open>int\<close> product,
  whose overflow is undefined and is an error value here.
\<close>

definition size_t :: "int \<Rightarrow> int" where
  "size_t v = v mod 2 ^ 64"

definition int32_t :: "int \<Rightarrow> int" where
  "int32_t v = (v + 2 ^ 31) mod 2 ^ 32 - 2 ^ 31"

datatype launch_error = Int_overflow

definition hgemm_gpu_wmma_opt_2 :: "nat \<Rightarrow> nat \<Rightarrow> launch_error + launch" where
  "hgemm_gpu_wmma_opt_2 M N =
     (let bm = int (block_m config_o2); bn = int (block_n config_o2);
          grid_m = int32_t (size_t (size_t (int M + bm) - 1) div bm);
          grid_n = int32_t (size_t (size_t (int N + bn) - 1) div bn);
          total_blocks = grid_m * grid_n
      in if total_blocks < - (2 ^ 31) \<or> 2 ^ 31 \<le> total_blocks then Inl Int_overflow
         else Inr \<lparr> grid = mk_dim3 total_blocks 1,
                    block = mk_dim3 (int (warp_size * total_warps config_o2)) 1 \<rparr>)"

section \<open>Dense matrices\<close>

text \<open>
  Modelled from the spec: the class \<^verbatim>\<open>matrix<T, Layout>\<close> and the enumeration
  \<^verbatim>\<open>matrix_layout\<close> are defined in \<^verbatim>\<open>common/matrix.hpp\<close>, which is not among the
  sources.  The spec describes a matrix as an immutable shape (rows, cols), a layout tag
  (row-major or column-major) and an owned contiguous element buffer.
\<close>

datatype matrix_layout = row_major | col_major

record 'a matrix =
  m_rows :: nat
  m_cols :: nat
  m_layout :: matrix_layout
  m_data :: "'a list"

text \<open>
  Modelled from the spec: the buffer of a matrix (\<^verbatim>\<open>common/matrix.hpp\<close>, not among the
  sources) holds one element per coordinate.
\<close>

definition wf_matrix :: "'a matrix \<Rightarrow> bool" where
  "wf_matrix m = (length (m_data m) = m_rows m * m_cols m)"

text \<open>
  Modelled from the spec: the position of the element \<open>(r, c)\<close> in the buffer
  (\<^verbatim>\<open>common/matrix.hpp\<close>, not among the sources), row by row under the row-major tag
  and column by column under the column-major tag.
\<close>

definition get_index :: "'a matrix \<Rightarrow> nat \<Rightarrow> nat \<Rightarrow> nat" where
  "get_index m r c =
     (case m_layout m of
        row_major \<Rightarrow> r * m_cols m + c
      | col_major \<Rightarrow> c * m_rows m + r)"

text \<open>
  Modelled from the spec: the element access \<^verbatim>\<open>operator()(row, col)\<close> of the matrix
  (\<^verbatim>\<open>common/matrix.hpp\<close>, not among the sources), which the spec calls bounds-checked.
  A failed bounds check is the error value \<open>Out_of_range row col\<close>; \<open>mat_get\<close> is the
  access that reads, \<open>mat_set\<close> the access that is assigned to.
\<close>

datatype access_error = Out_of_range nat nat

definition mat_get :: "'a matrix \<Rightarrow> nat \<Rightarrow> nat \<Rightarrow> access_error + 'a" where
  "mat_get m r c =
     (if r < m_rows m \<and> c < m_cols m then Inr (m_data m ! get_index m r c)
      else Inl (Out_of_range r c))"

definition mat_set :: "'a matrix \<Rightarrow> nat \<Rightarrow> nat \<Rightarrow> 'a \<Rightarrow> access_error + 'a matrix" where
  "mat_set m r c v =
     (if r < m_rows m \<and> c < m_cols m
      then Inr (m\<lparr> m_data := (m_data m)[get_index m r c := v] \<rparr>)
      else Inl (Out_of_range r c))"

text \<open>The logical element at an in-range coordinate.\<close>

definition elem :: "'a matrix \<Rightarrow> nat \<Rightarrow> nat \<Rightarrow> 'a" where
  "elem m r c = m_data m ! get_index m r c"

text \<open>
  The matrix with the same shape and the same logical elements, stored under the layout
  tag \<open>l\<close>.
\<close>

definition with_layout :: "matrix_layout \<Rightarrow> 'a matrix \<Rightarrow> 'a matrix" where
  "with_layout l m =
     \<lparr> m_rows = m_rows m, m_cols = m_cols m, m_layout = l,
       m_data =
         (case l of
            row_major \<Rightarrow> concat (map (\<lambda>r. map (\<lambda>c. elem m r c) [0..<m_cols m]) [0..<m_rows m])
          | col_major \<Rightarrow> concat (map (\<lambda>c. map (\<lambda>r. elem m r c) [0..<m_rows m]) [0..<m_cols m])) \<rparr>"

section \<open>Floating-point operations\<close>

text \<open>
  The arithmetic of \<^verbatim>\<open>half\<close> and \<^verbatim>\<open>float\<close> is not modelled: the two types are type
  parameters \<open>'h\<close> and \<open>'f\<close>, and the operations the host code applies to them are the
  fields of a record.  \<open>flt\<close> is \<^verbatim>\<open>operator<\<close>; \<^verbatim>\<open>a > b\<close> is \<open>flt b a\<close>, and
  \<^verbatim>\<open>std::max(a, b)\<close> is \<^verbatim>\<open>(a < b) ? b : a\<close>.  \<open>fle\<close> is \<^verbatim>\<open>operator<=\<close>, which the
  code does not use: it is the "at most" of the statements about the code.
\<close>

record ('h, 'f) fp_ops =
  to_float :: "'h \<Rightarrow> 'f"
  to_half :: "'f \<Rightarrow> 'h"
  fzero :: "'f"
  fadd :: "'f \<Rightarrow> 'f \<Rightarrow> 'f"
  fsub :: "'f \<Rightarrow> 'f \<Rightarrow> 'f"
  fmul :: "'f \<Rightarrow> 'f \<Rightarrow> 'f"
  fdiv :: "'f \<Rightarrow> 'f \<Rightarrow> 'f"
  fabs :: "'f \<Rightarrow> 'f"
  flt :: "'f \<Rightarrow> 'f \<Rightarrow> bool"
  fle :: "'f \<Rightarrow> 'f \<Rightarrow> bool"
  feps :: "'f"



section \<open>The CPU reference and the verification\<close>

text \<open>
  \<^verbatim>\<open>hgemm_cpu\<close>: three nested loops.  \<open>C\<close> is passed by reference and updated in
  place; \<open>A\<close> and \<open>B\<close> are read only and are objects distinct from \<open>C\<close>.  Each loop is
  a recursion over the list of its index values; an element access that fails ends the
  call with the error.
\<close>

fun hgemm_cpu_k ::
  "('h, 'f) fp_ops \<Rightarrow> 'h matrix \<Rightarrow> 'h matrix \<Rightarrow> nat \<Rightarrow> nat \<Rightarrow> nat list \<Rightarrow> 'f \<Rightarrow> access_error + 'f"
where
  "hgemm_cpu_k fp A B i j [] acc = Inr acc"
| "hgemm_cpu_k fp A B i j (k # ks) acc =
     (case mat_get A i k of
        Inl e \<Rightarrow> Inl e
      | Inr a \<Rightarrow>
          (case mat_get B k j of
             Inl e \<Rightarrow> Inl e
           | Inr b \<Rightarrow>
               hgemm_cpu_k fp A B i j ks
                 (fadd fp acc (fmul fp (to_float fp a) (to_float fp b)))))"

fun hgemm_cpu_j ::
  "('h, 'f) fp_ops \<Rightarrow> 'h matrix \<Rightarrow> 'h matrix \<Rightarrow> nat \<Rightarrow> nat list \<Rightarrow> 'h matrix
     \<Rightarrow> access_error + 'h matrix"
where
  "hgemm_cpu_j fp A B i [] C = Inr C"
| "hgemm_cpu_j fp A B i (j # js) C =
     (case hgemm_cpu_k fp A B i j [0..<m_cols A] (fzero fp) of
        Inl e \<Rightarrow> Inl e
      | Inr acc \<Rightarrow>
          (case mat_set C i j (to_half fp acc) of
             Inl e \<Rightarrow> Inl e
           | Inr C' \<Rightarrow> hgemm_cpu_j fp A B i js C'))"

fun hgemm_cpu_i ::
  "('h, 'f) fp_ops \<Rightarrow> 'h matrix \<Rightarrow> 'h matrix \<Rightarrow> nat list \<Rightarrow> 'h matrix
     \<Rightarrow> access_error + 'h matrix"
where
  "hgemm_cpu_i fp A B [] C = Inr C"
| "hgemm_cpu_i fp A B (i # is) C =
     (case hgemm_cpu_j fp A B i [0..<m_cols C] C of
        Inl e \<Rightarrow> Inl e
      | Inr C' \<Rightarrow> hgemm_cpu_i fp A B is C')"

definition hgemm_cpu ::
  "('h, 'f) fp_ops \<Rightarrow> 'h matrix \<Rightarrow> 'h matrix \<Rightarrow> 'h matrix \<Rightarrow> access_error + 'h matrix"
where
  "hgemm_cpu fp C A B = hgemm_cpu_i fp A B [0..<m_rows C] C"

text \<open>
  The value the spec gives to \<open>C(i, j)\<close>: the products of the converted elements, added up
  in single precision from \<open>0.0f\<close> in the order \<open>k = 0, 1, ...\<close>, converted to half at the
  end.
\<close>

definition dot_float :: "('h, 'f) fp_ops \<Rightarrow> 'h matrix \<Rightarrow> 'h matrix \<Rightarrow> nat \<Rightarrow> nat \<Rightarrow> nat \<Rightarrow> 'f" where
  "dot_float fp A B i j n =
     foldl (\<lambda>acc k. fadd fp acc (fmul fp (to_float fp (elem A i k)) (to_float fp (elem B k j))))
       (fzero fp) [0..<n]"








section \<open>A value model of IEEE 754 numbers\<close>

text \<open>
  Concrete inputs need concrete numbers.  \<open>ieee\<close> has the finite values (as exact
  rationals), the two infinities and NaN, with the IEEE 754 rules for the special values:
  an operation on NaN, \<open>\<infinity> - \<infinity>\<close>, \<open>0 * \<infinity>\<close>, \<open>0 / 0\<close> and \<open>\<infinity> / \<infinity>\<close>
  give NaN, and every comparison with NaN is false.  Rounding, overflow and the sign of
  zero are left out: finite arithmetic is exact, and the conversions between half and
  float are the identity.
\<close>

datatype ieee = Num rat | PInf | NInf | NaN

fun ieee_sign :: "ieee \<Rightarrow> int" where
  "ieee_sign (Num x) = (if x < 0 then - 1 else if x = 0 then 0 else 1)"
| "ieee_sign PInf = 1"
| "ieee_sign NInf = - 1"
| "ieee_sign NaN = 0"

definition ieee_inf :: "int \<Rightarrow> ieee" where
  "ieee_inf s = (if 0 < s then PInf else if s < 0 then NInf else NaN)"

fun ieee_neg :: "ieee \<Rightarrow> ieee" where
  "ieee_neg (Num x) = Num (- x)"
| "ieee_neg PInf = NInf"
| "ieee_neg NInf = PInf"
| "ieee_neg NaN = NaN"

fun ieee_abs :: "ieee \<Rightarrow> ieee" where
  "ieee_abs (Num x) = Num \<bar>x\<bar>"
| "ieee_abs PInf = PInf"
| "ieee_abs NInf = PInf"
| "ieee_abs NaN = NaN"

fun ieee_add :: "ieee \<Rightarrow> ieee \<Rightarrow> ieee" where
  "ieee_add NaN b = NaN"
| "ieee_add a NaN = NaN"
| "ieee_add (Num x) (Num y) = Num (x + y)"
| "ieee_add PInf NInf = NaN"
| "ieee_add NInf PInf = NaN"
| "ieee_add PInf b = PInf"
| "ieee_add NInf b = NInf"
| "ieee_add (Num x) b = b"

definition ieee_sub :: "ieee \<Rightarrow> ieee \<Rightarrow> ieee" where
  "ieee_sub a b = ieee_add a (ieee_neg b)"

fun ieee_mul :: "ieee \<Rightarrow> ieee \<Rightarrow> ieee" where
  "ieee_mul NaN b = NaN"
| "ieee_mul a NaN = NaN"
| "ieee_mul (Num x) (Num y) = Num (x * y)"
| "ieee_mul a b = ieee_inf (ieee_sign a * ieee_sign b)"

fun ieee_div :: "ieee \<Rightarrow> ieee \<Rightarrow> ieee" where
  "ieee_div NaN b = NaN"
| "ieee_div a NaN = NaN"
| "ieee_div (Num x) (Num y) = (if y = 0 then ieee_inf (ieee_sign (Num x)) else Num (x / y))"
| "ieee_div (Num x) b = Num 0"
| "ieee_div a (Num y) = ieee_inf (ieee_sign a * (if y < 0 then - 1 else 1))"
| "ieee_div a b = NaN"

fun ieee_lt :: "ieee \<Rightarrow> ieee \<Rightarrow> bool" where
  "ieee_lt NaN b = False"
| "ieee_lt a NaN = False"
| "ieee_lt (Num x) (Num y) = (x < y)"
| "ieee_lt a NInf = False"
| "ieee_lt PInf b = False"
| "ieee_lt a b = True"

definition ieee_le :: "ieee \<Rightarrow> ieee \<Rightarrow> bool" where
  "ieee_le a b = (a \<noteq> NaN \<and> b \<noteq> NaN \<and> (a = b \<or> ieee_lt a b))"

definition ieee_ops :: "(ieee, ieee) fp_ops" where
  "ieee_ops =
     \<lparr> to_float = (\<lambda>h. h), to_half = (\<lambda>f. f), fzero = Num 0,
       fadd = ieee_add, fsub = ieee_sub, fmul = ieee_mul, fdiv = ieee_div,
       fabs = ieee_abs, flt = ieee_lt, fle = ieee_le, feps = Num (1 / 100000) \<rparr>"

section \<open>Example matrices\<close>

text \<open>
  Small matrices over \<open>ieee\<close> on which the theorems below are instantiated: \<open>a22\<close> is
  \<open>[[1, 2], [3, 4]]\<close> stored row-major, \<open>b22\<close> is \<open>[[5, 6], [7, 8]]\<close> stored column-major.
\<close>

definition a22 :: "ieee matrix" where
  "a22 = \<lparr> m_rows = 2, m_cols = 2, m_layout = row_major, m_data = [Num 1, Num 2, Num 3, Num 4] \<rparr>"

definition b22 :: "ieee matrix" where
  "b22 = \<lparr> m_rows = 2, m_cols = 2, m_layout = col_major, m_data = [Num 5, Num 7, Num 6, Num 8] \<rparr>"

definition c22 :: "ieee matrix" where
  "c22 = \<lparr> m_rows = 2, m_cols = 2, m_layout = col_major, m_data = [Num 0, Num 0, Num 0, Num 0] \<rparr>"








section \<open>Device code\<close>

text \<open>
  Thread and block indices, matrix extents and offsets are non-negative \<^verbatim>\<open>int\<close>s; they
  are natural numbers here.  Global memory is addressed by element offsets from the
  start of a buffer.  A buffer that is written is a partial map from offsets to values
  (its domain records every offset a store was issued to); a buffer that is read is the
  list of its elements.  Staging memory is a total array.
\<close>

subsection \<open>The naive kernel\<close>

text \<open>
  \<^verbatim>\<open>kernel_hgemm<wmma_naive>\<close> gives every warp one 16 x 16 tile of \<open>C\<close>, whose origin
  follows from the block and thread indices.
\<close>

definition naive_tile_origin :: "nat \<Rightarrow> nat \<Rightarrow> nat \<Rightarrow> nat \<Rightarrow> nat \<Rightarrow> nat \<Rightarrow> nat \<times> nat" where
  "naive_tile_origin blockIdx_x blockIdx_y blockDim_x blockDim_y threadIdx_x threadIdx_y =
     (let ix = (blockIdx_x * blockDim_x + threadIdx_x) div warp_size;
          iy = blockIdx_y * blockDim_y + threadIdx_y
      in (ix * wmma_tile, iy * wmma_tile))"

text \<open>
  \<^verbatim>\<open>store_matrix\<close>: the lane stores the even entries of its fragment to the rows
  \<open>row + 2 i + half_warp_id\<close> of column \<open>col + lane\<close>.  The parameter \<open>M\<close> is not used.
\<close>

definition store_matrix ::
  "(nat \<rightharpoonup> 'h) \<Rightarrow> 'h list \<Rightarrow> nat \<Rightarrow> nat \<Rightarrow> nat \<Rightarrow> nat \<Rightarrow> nat \<Rightarrow> (nat \<rightharpoonup> 'h)"
where
  "store_matrix data frag row col M N threadIdx_x =
     (let half_warp = warp_size div 2;
          lane = threadIdx_x mod half_warp;
          half_warp_id = (threadIdx_x mod warp_size) div half_warp;
          offset = col + lane
      in foldl (\<lambda>d i. let r = i * 2 + half_warp_id
                       in d((row + r) * N + offset \<mapsto> frag ! (i * 2)))
           data [0..<wmma_tile div 2])"

subsection \<open>The guarded epilogue of the shared-memory kernels\<close>

text \<open>
  The store loop at the end of \<^verbatim>\<open>kernel_hgemm<wmma_shared>\<close>; \<open>row0\<close> and \<open>col0\<close> are
  \<^verbatim>\<open>block_row + warp_m_offset\<close> and \<^verbatim>\<open>block_col + warp_n_offset\<close>.
\<close>

definition wmma_shared_store ::
  "(nat \<rightharpoonup> 'h) \<Rightarrow> 'h list \<Rightarrow> nat \<Rightarrow> nat \<Rightarrow> nat \<Rightarrow> nat \<Rightarrow> nat \<Rightarrow> nat \<Rightarrow> (nat \<rightharpoonup> 'h)"
where
  "wmma_shared_store C c_frag row0 col0 half_warp_id half_lane M N =
     foldl (\<lambda>d i. let row = i * 2 + half_warp_id
                   in if row0 + row < M \<and> col0 + half_lane < N
                      then d((row0 + row) * N + (col0 + half_lane) \<mapsto> c_frag ! (i * 2))
                      else d)
       C [0..<wmma_tile div 2]"

subsection \<open>Strided loops\<close>

text \<open>\<^verbatim>\<open>for (int i = start; i < bound; i += step) s = body(i, s);\<close> with a positive step.\<close>

function for_loop :: "nat \<Rightarrow> nat \<Rightarrow> nat \<Rightarrow> (nat \<Rightarrow> 's \<Rightarrow> 's) \<Rightarrow> 's \<Rightarrow> 's" where
  "for_loop i bound step body s =
     (if i < bound \<and> 0 < step then for_loop (i + step) bound step body (body i s) else s)"
  by pat_completeness auto
termination
  by (relation "measure (\<lambda>(i, bound, step, body, s). bound - i)") auto

declare for_loop.simps [simp del]

subsection \<open>Vectorised staging with the element-wise fallback\<close>

text \<open>
  The staging of an \<open>A\<close> tile in \<^verbatim>\<open>kernel_hgemm<wmma_shared_warp_buf_vec>\<close>, as run by
  the loader thread \<open>cid\<close>.  \<open>k0\<close> is the first global column of the tile and \<open>A_off\<close>
  the offset in \<open>A\<close> of the pointer the tile is read from: \<open>0\<close> and the offset of
  \<^verbatim>\<open>A_tile_ptr\<close> in the staging before the loop, \<^verbatim>\<open>k_tile + block_k\<close> and the offset
  of \<^verbatim>\<open>next_A\<close> in the staging inside the loop.  A chunk is either one vector copy or
  \<open>vector_width\<close> element steps, each a copy or a zero.
\<close>

definition vec_copy :: "nat \<Rightarrow> (nat \<Rightarrow> 'h) \<Rightarrow> nat \<Rightarrow> 'h list \<Rightarrow> nat \<Rightarrow> (nat \<Rightarrow> 'h)" where
  "vec_copy vw lds dst src src_off = foldl (\<lambda>t v. t(dst + v := src ! (src_off + v))) lds [0..<vw]"

definition wbv_stage_A_chunk ::
  "'h \<Rightarrow> 'h list \<Rightarrow> nat \<Rightarrow> nat \<Rightarrow> nat \<Rightarrow> nat \<Rightarrow> nat \<Rightarrow> nat \<Rightarrow> (nat \<Rightarrow> 'h) \<Rightarrow> (nat \<Rightarrow> 'h)"
where
  "wbv_stage_A_chunk zero A A_off block_row k0 M K i a_tiles =
     (let col = i div block_m config_wbv;
          row = i mod block_m config_wbv;
          vw = vector_width config_wbv;
          stride = lds_stride_A config_wbv
      in if block_row + row + vw - 1 < M \<and> k0 + col < K
         then vec_copy vw a_tiles (col * stride + row) A (A_off + col * M + row)
         else foldl (\<lambda>t v. if block_row + row + v < M \<and> k0 + col < K
                            then t(col * stride + row + v := A ! (A_off + col * M + row + v))
                            else t(col * stride + row + v := zero))
                a_tiles [0..<vw])"

definition wbv_stage_A ::
  "'h \<Rightarrow> 'h list \<Rightarrow> nat \<Rightarrow> nat \<Rightarrow> nat \<Rightarrow> nat \<Rightarrow> nat \<Rightarrow> nat \<Rightarrow> nat \<Rightarrow> (nat \<Rightarrow> 'h) \<Rightarrow> (nat \<Rightarrow> 'h)"
where
  "wbv_stage_A zero A A_off block_row k0 M K cid half_block a_tiles =
     for_loop (cid * vector_width config_wbv) (block_m config_wbv * block_k config_wbv)
       (half_block * vector_width config_wbv)
       (wbv_stage_A_chunk zero A A_off block_row k0 M K) a_tiles"

subsection \<open>Staging through registers in the prefetch kernel\<close>

text \<open>
  The block \<^verbatim>\<open>// Initial load to registers\<close> of \<^verbatim>\<open>kernel_hgemm<wmma_prefetch>\<close> for a
  loader thread of \<open>A\<close>: a loop that loads full vectors into \<^verbatim>\<open>a_reg_buf\<close>, then a loop
  that stores the registers to the staging tile.  \<^verbatim>\<open>a_reg_buf\<close> is a local array
  without initialiser, so its content on entry is a parameter.  The load has no
  \<^verbatim>\<open>else\<close> branch.
\<close>

definition prefetch_load_A_chunk ::
  "'h list \<Rightarrow> nat \<Rightarrow> nat \<Rightarrow> nat \<Rightarrow> nat \<Rightarrow> nat \<Rightarrow> nat \<Rightarrow> nat \<Rightarrow> 'h list list \<Rightarrow> 'h list list"
where
  "prefetch_load_A_chunk A A_off block_row k0 M K half_block i a_reg_buf =
     (let col = i div block_m config_p;
          row = i mod block_m config_p;
          vw = vector_width config_p;
          local_idx = (i div vw) div half_block
      in if block_row + row + vw - 1 < M \<and> k0 + col < K
         then a_reg_buf[local_idx := map (\<lambda>v. A ! (A_off + col * M + row + v)) [0..<vw]]
         else a_reg_buf)"

definition prefetch_store_A_chunk ::
  "'h list list \<Rightarrow> nat \<Rightarrow> nat \<Rightarrow> (nat \<Rightarrow> 'h) \<Rightarrow> (nat \<Rightarrow> 'h)"
where
  "prefetch_store_A_chunk a_reg_buf half_block i a_tiles =
     (let col = i div block_m config_p;
          row = i mod block_m config_p;
          vw = vector_width config_p;
          local_idx = (i div vw) div half_block
      in vec_copy vw a_tiles (col * lds_stride_A config_p + row) (a_reg_buf ! local_idx) 0)"

definition prefetch_stage_A ::
  "'h list \<Rightarrow> nat \<Rightarrow> nat \<Rightarrow> nat \<Rightarrow> nat \<Rightarrow> nat \<Rightarrow> nat \<Rightarrow> nat \<Rightarrow> 'h list list \<Rightarrow> (nat \<Rightarrow> 'h)
     \<Rightarrow> (nat \<Rightarrow> 'h)"
where
  "prefetch_stage_A A A_off block_row k0 M K cid half_block a_reg_buf a_tiles =
     (let vw = vector_width config_p;
          regs = for_loop (cid * vw) (block_m config_p * block_k config_p) (half_block * vw)
                   (prefetch_load_A_chunk A A_off block_row k0 M K half_block) a_reg_buf
      in for_loop (cid * vw) (block_k config_p * block_n config_p) (half_block * vw)
           (prefetch_store_A_chunk regs half_block) a_tiles)"

text \<open>
  What the boundary policy asks of the staged chunk that starts at row \<open>row\<close> of tile
  column \<open>col\<close>: the element of \<open>A\<close> where the global coordinate is inside the matrix,
  zero elsewhere.
\<close>

definition zero_padded_chunk :: "'h \<Rightarrow> 'h list \<Rightarrow> nat \<Rightarrow> nat \<Rightarrow> nat \<Rightarrow> nat \<Rightarrow> nat \<Rightarrow> 'h list" where
  "zero_padded_chunk zero A M K grow gcol vw =
     map (\<lambda>v. if grow + v < M \<and> gcol < K then A ! (gcol * M + grow + v) else zero) [0..<vw]"

section \<open>The locality-preserving block scheduler\<close>

text \<open>
  Modelled from the spec: \<open>hilbert_tile_mapping\<close> is defined in
  \<^verbatim>\<open>kernels/common.hpp\<close>, which is not among the sources; only its call in
  \<^verbatim>\<open>kernel_hgemm<wmma_opt_2>\<close> is.  The spec describes it as a Hilbert-curve
  index-to-coordinate mapping over the \<open>grid_m x grid_n\<close> block grid, which pads the grid
  to the next power-of-two bounding square and discards the points of the curve that
  fall outside the grid.  The template parameters \<open>bm\<close> and \<open>bn\<close> (the block tile) scale
  the grid cell to the block's origin in \<open>C\<close>; the two output pointers are the returned pair.
\<close>

text \<open>
  Modelled from the spec: the order of the power-of-two bounding square, the least
  \<open>k' \<ge> k\<close> with \<open>n \<le> 2 ^ k'\<close> (part of \<open>hilbert_tile_mapping\<close>, not among the sources).
\<close>

function hilbert_order :: "nat \<Rightarrow> nat \<Rightarrow> nat" where
  "hilbert_order k n = (if 2 ^ k < n then hilbert_order (Suc k) n else k)"
  by pat_completeness auto
termination
proof (relation "measure (\<lambda>(k, n). n - 2 ^ k)")
  show "wf (measure (\<lambda>(k, n). n - 2 ^ k))" by simp
next
  fix k n :: nat
  assume "2 ^ k < n"
  moreover have "(0::nat) < 2 ^ k" by simp
  ultimately have "n - 2 * 2 ^ k < n - 2 ^ k" by linarith
  then show "((Suc k, n), (k, n)) \<in> measure (\<lambda>(k, n). n - 2 ^ k)" by simp
qed

declare hilbert_order.simps [simp del]

text \<open>
  Modelled from the spec: the Hilbert-curve index-to-coordinate mapping (part of
  \<open>hilbert_tile_mapping\<close>, not among the sources).  It gives the point at distance
  \<open>d\<close> along the Hilbert curve of order \<open>k\<close> (side \<open>2 ^ k\<close>): the
  two bits of \<open>d\<close> at level \<open>k\<close> choose the quadrant \<open>(rx, ry)\<close>, the lower bits give
  the point inside the quadrant, which is transposed in quadrant \<open>(0, 0)\<close> and transposed
  and reflected in quadrant \<open>(1, 0)\<close>.
\<close>

primrec hilbert_d2xy :: "nat \<Rightarrow> nat \<Rightarrow> nat \<times> nat" where
  "hilbert_d2xy 0 d = (0, 0)"
| "hilbert_d2xy (Suc k) d =
     (let s = 2 ^ k;
          p = hilbert_d2xy k (d mod 4 ^ k);
          t = d div 4 ^ k;
          rx = (t div 2) mod 2;
          ry = (t + rx) mod 2
      in if ry = 0
         then (if rx = 1 then (s - 1 - snd p + s, s - 1 - fst p) else (snd p, fst p))
         else (fst p + s * rx, snd p + s))"

text \<open>
  Modelled from the spec: the curve over the bounding square with the points outside the
  grid discarded (part of \<open>hilbert_tile_mapping\<close>, not among the sources).
\<close>

definition hilbert_cells :: "nat \<Rightarrow> nat \<Rightarrow> (nat \<times> nat) list" where
  "hilbert_cells grid_m grid_n =
     (let k = hilbert_order 0 (max grid_m grid_n)
      in filter (\<lambda>p. fst p < grid_m \<and> snd p < grid_n) (map (hilbert_d2xy k) [0..<4 ^ k]))"

text \<open>
  Modelled from the spec: \<open>hilbert_tile_mapping\<close> itself (\<^verbatim>\<open>kernels/common.hpp\<close>, not
  among the sources).  The block with linear index \<open>tile_id\<close> gets the \<open>tile_id\<close>-th
  grid cell along the curve; an index that is not below the number of cells violates the
  caller's invariant and has no result.
\<close>

definition hilbert_tile_mapping :: "nat \<Rightarrow> nat \<Rightarrow> nat \<Rightarrow> nat \<Rightarrow> nat \<Rightarrow> (nat \<times> nat) option" where
  "hilbert_tile_mapping bm bn tile_id grid_m grid_n =
     (let cells = hilbert_cells grid_m grid_n
      in if tile_id < length cells
         then Some (fst (cells ! tile_id) * bm, snd (cells ! tile_id) * bn)
         else None)"

section \<open>Configuration constraints\<close>

lemmas config_defs =
  config_s_def config_o1_def config_p_def config_wbv_def config_o2_def tiled_config_def
  wmma_tile_def sizeof_float8_def sizeof_half_def


section \<open>The launch grid\<close>

lemma ceil_div_bounds:
  assumes "0 < b"
  shows "a \<le> ceil_div a b * b" and "ceil_div a b * b < a + b"
proof -
  define q where "q = (a + b - 1) div b"
  have m: "(a + b - 1) mod b < b" using assms by simp
  have e: "q * b + (a + b - 1) mod b = a + b - 1"
    unfolding q_def by simp
  show "a \<le> ceil_div a b * b" using m e assms unfolding ceil_div_def q_def by linarith
  show "ceil_div a b * b < a + b" using m e assms unfolding ceil_div_def q_def by linarith
qed

lemma ceil_div_ceiling: "0 < b \<Longrightarrow> ceil_div a b = nat \<lceil>real a / real b\<rceil>"
proof -
  assume b: "0 < b"
  have 1: "real a \<le> real (ceil_div a b) * real b"
    using ceil_div_bounds(1)[OF b, of a] by (metis of_nat_le_iff of_nat_mult)
  have 2: "real (ceil_div a b) * real b < real a + real b"
    using ceil_div_bounds(2)[OF b, of a] by (metis of_nat_less_iff of_nat_mult of_nat_add)
  have "\<lceil>real a / real b\<rceil> = int (ceil_div a b)"
  proof (rule ceiling_unique)
    show "real_of_int (int (ceil_div a b)) - 1 < real a / real b"
      using 2 b by (simp add: field_simps)
    show "real a / real b \<le> real_of_int (int (ceil_div a b))"
      using 1 b by (simp add: field_simps)
  qed
  then show ?thesis by simp
qed


lemma ceil_div_le:
  assumes "0 < b"
  shows "ceil_div a b \<le> a"
proof (rule ccontr)
  assume "\<not> ceil_div a b \<le> a"
  then have "Suc a \<le> ceil_div a b" by simp
  then have "Suc a * b \<le> ceil_div a b * b" by (rule mult_le_mono1)
  moreover have "a + b \<le> Suc a * b" using assms by simp
  ultimately show False using ceil_div_bounds(2)[OF assms, of a] by linarith
qed

lemma opt_2_grid_dim:
  assumes "M < 2 ^ 31" "0 < b" "b < 2 ^ 31"
  shows "int32_t (size_t (size_t (int M + int b) - 1) div int b) = int (ceil_div M b)"
proof -
  have 1: "size_t (int M + int b) = int M + int b"
    using assms by (simp add: size_t_def)
  have 2: "size_t (int M + int b - 1) = int (M + b - 1)"
    using assms by (simp add: size_t_def of_nat_diff)
  have 3: "int (M + b - 1) div int b = int (ceil_div M b)"
    by (simp add: ceil_div_def zdiv_int)
  have 4: "int (ceil_div M b) < 2 ^ 31"
    using ceil_div_le[OF assms(2), of M] assms(1) by simp
  show ?thesis unfolding 1 2 3 using 4 by (simp add: int32_t_def)
qed

lemma uint32_t_int: "n < 2 ^ 32 \<Longrightarrow> uint32_t (int n) = n"
  by (simp add: uint32_t_def nat_mod_distrib)

lemma mk_dim3_small:
  "a < 2 ^ 31 \<Longrightarrow> b < 2 ^ 31 \<Longrightarrow> mk_dim3 (int a) (int b) = \<lparr> dim_x = a, dim_y = b, dim_z = 1 \<rparr>"
  by (simp add: mk_dim3_def uint32_t_int)

lemma grid_ceiling:
  assumes "M < 2 ^ 31" "N < 2 ^ 31" "0 < bm" "0 < bn"
  shows "mk_dim3 (int (ceil_div M bm)) (int (ceil_div N bn))
           = \<lparr> dim_x = nat \<lceil>real M / real bm\<rceil>, dim_y = nat \<lceil>real N / real bn\<rceil>, dim_z = 1 \<rparr>"
proof -
  have "ceil_div M bm < 2 ^ 31" "ceil_div N bn < 2 ^ 31"
    using ceil_div_le[OF assms(3), of M] ceil_div_le[OF assms(4), of N] assms(1,2) by linarith+
  then have "mk_dim3 (int (ceil_div M bm)) (int (ceil_div N bn))
           = \<lparr> dim_x = ceil_div M bm, dim_y = ceil_div N bn, dim_z = 1 \<rparr>"
    by (rule mk_dim3_small)
  then show ?thesis
    by (simp only: ceil_div_ceiling[OF assms(3)] ceil_div_ceiling[OF assms(4)])
qed

lemma opt_2_overflow: "hgemm_gpu_wmma_opt_2 16777216 16777216 = Inl Int_overflow"
proof -
  have bm: "block_m config_o2 = 256" and bn: "block_n config_o2 = 256"
    by (simp_all add: config_defs)
  have g: "int32_t (size_t (size_t (int 16777216 + 256) - 1) div 256) = 65536"
    using opt_2_grid_dim[of 16777216 256] by (simp add: ceil_div_def)
  show ?thesis
    unfolding hgemm_gpu_wmma_opt_2_def Let_def bm bn using g by simp
qed

text \<open>
  C6, as stated, fails for the one-dimensional grid of \<open>wmma_opt_2\<close>: with
  \<open>M = N = 2 ^ 24\<close> the claim asks for \<open>65536 * 65536 = 2 ^ 32\<close> blocks, but the
  product is computed in \<^verbatim>\<open>int\<close> and overflows, so that number of blocks is not launched.
\<close>

theorem dispatch_grid_overflow:
  "nat \<lceil>real 16777216 / real (block_m config_o2)\<rceil> * nat \<lceil>real 16777216 / real (block_n config_o2)\<rceil>
       = 4294967296
   \<and> hgemm_gpu_wmma_opt_2 16777216 16777216 = Inl Int_overflow
   \<and> \<not> (\<exists>l. hgemm_gpu_wmma_opt_2 16777216 16777216 = Inr l
            \<and> dim_x (grid l) = nat \<lceil>real 16777216 / real (block_m config_o2)\<rceil>
                               * nat \<lceil>real 16777216 / real (block_n config_o2)\<rceil>)"
proof -
  have "nat \<lceil>real 16777216 / real (block_m config_o2)\<rceil>
          * nat \<lceil>real 16777216 / real (block_n config_o2)\<rceil> = 4294967296"
    by (simp add: config_defs)
  then show ?thesis by (simp add: opt_2_overflow)
qed

text \<open>
  C6 (amended).  For all \<open>M, N \<ge> 1\<close> that fit the kernels' \<^verbatim>\<open>int\<close> parameters
  (below \<open>2 ^ 31\<close>), the two-dimensional dispatchers launch exactly
  \<open>ceil (M / block_m)\<close> by \<open>ceil (N / block_n)\<close> blocks (the naive kernel's block tile is
  64 x 64), and the one-dimensional dispatcher of \<open>wmma_opt_2\<close> launches
  \<open>ceil (M / block_m) * ceil (N / block_n)\<close> blocks provided that product is below
  \<open>2 ^ 31\<close>.
\<close>

theorem dispatch_grid:
  assumes "1 \<le> M" "M < 2 ^ 31" "1 \<le> N" "N < 2 ^ 31"
  shows "grid (hgemm_gpu_wmma_naive M N)
           = \<lparr> dim_x = nat \<lceil>real M / 64\<rceil>, dim_y = nat \<lceil>real N / 64\<rceil>, dim_z = 1 \<rparr>
       \<and> grid (hgemm_gpu_wmma_shared M N)
           = \<lparr> dim_x = nat \<lceil>real M / real (block_m config_s)\<rceil>,
               dim_y = nat \<lceil>real N / real (block_n config_s)\<rceil>, dim_z = 1 \<rparr>
       \<and> grid (hgemm_gpu_wmma_prefetch M N)
           = \<lparr> dim_x = nat \<lceil>real M / real (block_m config_p)\<rceil>,
               dim_y = nat \<lceil>real N / real (block_n config_p)\<rceil>, dim_z = 1 \<rparr>
       \<and> grid (hgemm_gpu_wmma_shared_warp_buf_vec M N)
           = \<lparr> dim_x = nat \<lceil>real M / real (block_m config_wbv)\<rceil>,
               dim_y = nat \<lceil>real N / real (block_n config_wbv)\<rceil>, dim_z = 1 \<rparr>
       \<and> (nat \<lceil>real M / real (block_m config_o2)\<rceil> * nat \<lceil>real N / real (block_n config_o2)\<rceil> < 2 ^ 31
            \<longrightarrow> map_sum id grid (hgemm_gpu_wmma_opt_2 M N)
                = Inr \<lparr> dim_x = nat \<lceil>real M / real (block_m config_o2)\<rceil>
                                * nat \<lceil>real N / real (block_n config_o2)\<rceil>,
                        dim_y = 1, dim_z = 1 \<rparr>)"
proof -
  note gc = grid_ceiling[OF assms(2) assms(4)]
  have naive: "grid (hgemm_gpu_wmma_naive M N)
           = \<lparr> dim_x = nat \<lceil>real M / 64\<rceil>, dim_y = nat \<lceil>real N / 64\<rceil>, dim_z = 1 \<rparr>"
  proof -
    have b: "dim_x (mk_dim3 128 4) = 128" "dim_y (mk_dim3 128 4) = 4"
      by (simp_all add: mk_dim3_def uint32_t_def)
    show ?thesis
      using gc[of 64 64] by (simp add: hgemm_gpu_wmma_naive_def Let_def wmma_tile_def b)
  qed
  have shared: "grid (hgemm_gpu_wmma_shared M N)
           = \<lparr> dim_x = nat \<lceil>real M / real (block_m config_s)\<rceil>,
               dim_y = nat \<lceil>real N / real (block_n config_s)\<rceil>, dim_z = 1 \<rparr>"
    using gc[of "block_m config_s" "block_n config_s"]
    by (simp add: hgemm_gpu_wmma_shared_def Let_def config_defs)
  have prefetch: "grid (hgemm_gpu_wmma_prefetch M N)
           = \<lparr> dim_x = nat \<lceil>real M / real (block_m config_p)\<rceil>,
               dim_y = nat \<lceil>real N / real (block_n config_p)\<rceil>, dim_z = 1 \<rparr>"
    using gc[of "block_m config_p" "block_n config_p"]
    by (simp add: hgemm_gpu_wmma_prefetch_def Let_def config_defs)
  have wbv: "grid (hgemm_gpu_wmma_shared_warp_buf_vec M N)
           = \<lparr> dim_x = nat \<lceil>real M / real (block_m config_wbv)\<rceil>,
               dim_y = nat \<lceil>real N / real (block_n config_wbv)\<rceil>, dim_z = 1 \<rparr>"
    using gc[of "block_m config_wbv" "block_n config_wbv"]
    by (simp add: hgemm_gpu_wmma_shared_warp_buf_vec_def Let_def config_defs)
  have o2: "map_sum id grid (hgemm_gpu_wmma_opt_2 M N)
                = Inr \<lparr> dim_x = nat \<lceil>real M / real (block_m config_o2)\<rceil>
                                * nat \<lceil>real N / real (block_n config_o2)\<rceil>,
                        dim_y = 1, dim_z = 1 \<rparr>"
    if small: "nat \<lceil>real M / real (block_m config_o2)\<rceil> * nat \<lceil>real N / real (block_n config_o2)\<rceil> < 2 ^ 31"
  proof -
    have bm: "block_m config_o2 = 256" and bn: "block_n config_o2 = 256"
      by (simp_all add: config_defs)
    have gm: "int32_t (size_t (size_t (int M + 256) - 1) div 256) = int (ceil_div M 256)"
      using opt_2_grid_dim[OF assms(2), of 256] by simp
    have gn: "int32_t (size_t (size_t (int N + 256) - 1) div 256) = int (ceil_div N 256)"
      using opt_2_grid_dim[OF assms(4), of 256] by simp
    have c: "ceil_div M 256 = nat \<lceil>real M / 256\<rceil>" "ceil_div N 256 = nat \<lceil>real N / 256\<rceil>"
      using ceil_div_ceiling[of 256] by simp_all
    have t: "ceil_div M 256 * ceil_div N 256 < 2 ^ 31"
      using small unfolding bm bn c by simp
    then have t': "int (ceil_div M 256) * int (ceil_div N 256) < 2 ^ 31"
      by (metis of_nat_mult of_nat_less_iff of_nat_numeral of_nat_power)
    have t0: "\<not> int (ceil_div M 256) * int (ceil_div N 256) < - (2 ^ 31)"
      by (metis (no_types) of_nat_mult of_nat_0_le_iff not_less order_trans neg_le_0_iff_le zero_le_numeral zero_le_power)
    have u: "uint32_t (int (ceil_div M 256) * int (ceil_div N 256)) = ceil_div M 256 * ceil_div N 256"
      using uint32_t_int[of "ceil_div M 256 * ceil_div N 256"] t by simp
    show ?thesis
      unfolding hgemm_gpu_wmma_opt_2_def Let_def bm bn
      using t' t0 u
      by (simp add: gm gn mk_dim3_def c uint32_t_def[of 1])
  qed
  show ?thesis using naive shared prefetch wbv o2 by blast
qed


theorem dispatch_grid_witness:
  "grid (hgemm_gpu_wmma_naive 257 4096) = \<lparr> dim_x = 5, dim_y = 64, dim_z = 1 \<rparr>
   \<and> grid (hgemm_gpu_wmma_shared 257 4096) = \<lparr> dim_x = 3, dim_y = 64, dim_z = 1 \<rparr>
   \<and> grid (hgemm_gpu_wmma_prefetch 257 4096) = \<lparr> dim_x = 2, dim_y = 16, dim_z = 1 \<rparr>
   \<and> grid (hgemm_gpu_wmma_shared_warp_buf_vec 257 4096) = \<lparr> dim_x = 2, dim_y = 16, dim_z = 1 \<rparr>
   \<and> map_sum id grid (hgemm_gpu_wmma_opt_2 257 4096) = Inr \<lparr> dim_x = 32, dim_y = 1, dim_z = 1 \<rparr>"
  using dispatch_grid[of 257 4096] by (simp add: config_defs)

section \<open>Matrix access\<close>

lemma get_index_lt:
  assumes "r < m_rows m" "c < m_cols m"
  shows "get_index m r c < m_rows m * m_cols m"
proof (cases "m_layout m")
  case row_major
  have "r * m_cols m + c < Suc r * m_cols m" using assms by simp
  also have "\<dots> \<le> m_rows m * m_cols m" using assms by (intro mult_le_mono1) simp
  finally show ?thesis using row_major by (simp add: get_index_def)
next
  case col_major
  have "c * m_rows m + r < Suc c * m_rows m" using assms by simp
  also have "\<dots> \<le> m_cols m * m_rows m" using assms by (intro mult_le_mono1) simp
  finally show ?thesis using col_major by (simp add: get_index_def mult.commute)
qed

lemma mult_add_inj:
  fixes n :: nat
  assumes "a * n + b = a' * n + b'" "b < n" "b' < n"
  shows "a = a' \<and> b = b'"
proof -
  have "a = (a * n + b) div n" using assms(2) by simp
  also have "\<dots> = (a' * n + b') div n" by (simp only: assms(1))
  also have "\<dots> = a'" using assms(3) by simp
  finally have "a = a'" .
  then show ?thesis using assms(1) by simp
qed

lemma get_index_inj:
  assumes "r < m_rows m" "c < m_cols m" "r' < m_rows m" "c' < m_cols m"
    and "get_index m r c = get_index m r' c'"
  shows "r = r' \<and> c = c'"
  using assms mult_add_inj[of r "m_cols m" c r' c'] mult_add_inj[of c "m_rows m" r c' r']
  by (cases "m_layout m") (auto simp: get_index_def)

lemma mat_get_elem:
  "r < m_rows m \<Longrightarrow> c < m_cols m \<Longrightarrow> mat_get m r c = Inr (elem m r c)"
  by (simp add: mat_get_def elem_def)

lemma mat_set_shape:
  assumes "mat_set m r c v = Inr m'"
  shows "m_rows m' = m_rows m" "m_cols m' = m_cols m" "m_layout m' = m_layout m"
    and "wf_matrix m \<Longrightarrow> wf_matrix m'"
  using assms by (auto simp: mat_set_def wf_matrix_def split: if_splits)

lemma mat_set_ok:
  "r < m_rows m \<Longrightarrow> c < m_cols m \<Longrightarrow> \<exists>m'. mat_set m r c v = Inr m'"
  by (simp add: mat_set_def)

lemma elem_mat_set:
  assumes "wf_matrix m" "mat_set m r c v = Inr m'" "r' < m_rows m" "c' < m_cols m"
  shows "elem m' r' c' = (if r' = r \<and> c' = c then v else elem m r' c')"
proof -
  have rc: "r < m_rows m" "c < m_cols m" and m': "m' = m\<lparr> m_data := (m_data m)[get_index m r c := v] \<rparr>"
    using assms(2) by (auto simp: mat_set_def split: if_splits)
  have gi: "get_index m' r' c' = get_index m r' c'" by (cases "m_layout m") (simp_all add: m' get_index_def)
  have lt: "get_index m r c < length (m_data m)"
    using get_index_lt[OF rc] assms(1) by (simp add: wf_matrix_def)
  have data: "m_data m' = (m_data m)[get_index m r c := v]" by (simp add: m')
  show ?thesis
  proof (cases "r' = r \<and> c' = c")
    case True
    then show ?thesis unfolding elem_def gi data using lt by simp
  next
    case False
    then have "get_index m r c \<noteq> get_index m r' c'"
      using get_index_inj[OF rc assms(3,4)] by auto
    then show ?thesis unfolding elem_def gi data using False by auto
  qed
qed

section \<open>The CPU reference\<close>

lemma hgemm_cpu_k_ok:
  assumes "i < m_rows A" "j < m_cols B" "\<forall>k \<in> set ks. k < m_cols A \<and> k < m_rows B"
  shows "hgemm_cpu_k fp A B i j ks acc
           = Inr (foldl (\<lambda>acc k. fadd fp acc (fmul fp (to_float fp (elem A i k)) (to_float fp (elem B k j)))) acc ks)"
  using assms by (induction ks arbitrary: acc) (simp_all add: mat_get_elem)

lemma hgemm_cpu_k_dot:
  assumes "i < m_rows A" "j < m_cols B" "m_cols A \<le> m_rows B"
  shows "hgemm_cpu_k fp A B i j [0..<m_cols A] (fzero fp) = Inr (dot_float fp A B i j (m_cols A))"
  unfolding dot_float_def using assms by (intro hgemm_cpu_k_ok) auto

lemma hgemm_cpu_j_ok:
  assumes "wf_matrix C" "i < m_rows C" "i < m_rows A" "m_cols A \<le> m_rows B"
    and "\<forall>j \<in> set js. j < m_cols C \<and> j < m_cols B"
  shows "\<exists>C'. hgemm_cpu_j fp A B i js C = Inr C' \<and> wf_matrix C'
          \<and> m_rows C' = m_rows C \<and> m_cols C' = m_cols C \<and> m_layout C' = m_layout C
          \<and> (\<forall>r < m_rows C. \<forall>c < m_cols C.
                elem C' r c = (if r = i \<and> c \<in> set js then to_half fp (dot_float fp A B i c (m_cols A))
                               else elem C r c))"
  using assms
proof (induction js arbitrary: C)
  case Nil
  then show ?case by simp
next
  case (Cons j js)
  have j: "j < m_cols C" "j < m_cols B" using Cons.prems(5) by simp_all
  let ?v = "to_half fp (dot_float fp A B i j (m_cols A))"
  obtain C1 where C1: "mat_set C i j ?v = Inr C1"
    using mat_set_ok[OF Cons.prems(2) j(1)] by blast
  note sh = mat_set_shape[OF C1]
  have "\<exists>C'. hgemm_cpu_j fp A B i js C1 = Inr C' \<and> wf_matrix C'
          \<and> m_rows C' = m_rows C1 \<and> m_cols C' = m_cols C1 \<and> m_layout C' = m_layout C1
          \<and> (\<forall>r < m_rows C1. \<forall>c < m_cols C1.
                elem C' r c = (if r = i \<and> c \<in> set js then to_half fp (dot_float fp A B i c (m_cols A))
                               else elem C1 r c))"
    using Cons.prems sh by (intro Cons.IH) simp_all
  then obtain C' where C': "hgemm_cpu_j fp A B i js C1 = Inr C'" "wf_matrix C'"
      "m_rows C' = m_rows C1" "m_cols C' = m_cols C1" "m_layout C' = m_layout C1"
      and el: "\<forall>r < m_rows C1. \<forall>c < m_cols C1.
                elem C' r c = (if r = i \<and> c \<in> set js then to_half fp (dot_float fp A B i c (m_cols A))
                               else elem C1 r c)"
    by blast
  have run: "hgemm_cpu_j fp A B i (j # js) C = Inr C'"
    using hgemm_cpu_k_dot[OF Cons.prems(3) j(2) Cons.prems(4), of fp] C1 C'(1) by simp
  have "elem C' r c = (if r = i \<and> c \<in> set (j # js) then to_half fp (dot_float fp A B i c (m_cols A))
                               else elem C r c)" if "r < m_rows C" "c < m_cols C" for r c
    using el that sh(1,2) elem_mat_set[OF Cons.prems(1) C1 that] by auto
  then show ?case using run C' sh by simp
qed

lemma hgemm_cpu_i_ok:
  assumes "wf_matrix C" "m_cols A \<le> m_rows B" "m_cols C \<le> m_cols B"
    and "\<forall>i \<in> set is. i < m_rows C \<and> i < m_rows A"
  shows "\<exists>C'. hgemm_cpu_i fp A B is C = Inr C' \<and> wf_matrix C'
          \<and> m_rows C' = m_rows C \<and> m_cols C' = m_cols C \<and> m_layout C' = m_layout C
          \<and> (\<forall>r < m_rows C. \<forall>c < m_cols C.
                elem C' r c = (if r \<in> set is then to_half fp (dot_float fp A B r c (m_cols A))
                               else elem C r c))"
  using assms
proof (induction "is" arbitrary: C)
  case Nil
  then show ?case by simp
next
  case (Cons i "is")
  have i: "i < m_rows C" "i < m_rows A" using Cons.prems(4) by simp_all
  have "\<forall>j \<in> set [0..<m_cols C]. j < m_cols C \<and> j < m_cols B" using Cons.prems(3) by auto
  from hgemm_cpu_j_ok[OF Cons.prems(1) i Cons.prems(2) this, of fp]
  obtain C1 where C1: "hgemm_cpu_j fp A B i [0..<m_cols C] C = Inr C1" "wf_matrix C1"
      "m_rows C1 = m_rows C" "m_cols C1 = m_cols C" "m_layout C1 = m_layout C"
      and el1: "\<forall>r < m_rows C. \<forall>c < m_cols C.
                elem C1 r c = (if r = i \<and> c \<in> set [0..<m_cols C] then to_half fp (dot_float fp A B i c (m_cols A))
                               else elem C r c)"
    by blast
  have "\<exists>C'. hgemm_cpu_i fp A B is C1 = Inr C' \<and> wf_matrix C'
          \<and> m_rows C' = m_rows C1 \<and> m_cols C' = m_cols C1 \<and> m_layout C' = m_layout C1
          \<and> (\<forall>r < m_rows C1. \<forall>c < m_cols C1.
                elem C' r c = (if r \<in> set is then to_half fp (dot_float fp A B r c (m_cols A))
                               else elem C1 r c))"
    using Cons.prems C1 by (intro Cons.IH) simp_all
  then obtain C' where C': "hgemm_cpu_i fp A B is C1 = Inr C'" "wf_matrix C'"
      "m_rows C' = m_rows C1" "m_cols C' = m_cols C1" "m_layout C' = m_layout C1"
      and el: "\<forall>r < m_rows C1. \<forall>c < m_cols C1.
                elem C' r c = (if r \<in> set is then to_half fp (dot_float fp A B r c (m_cols A))
                               else elem C1 r c)"
    by blast
  have run: "hgemm_cpu_i fp A B (i # is) C = Inr C'" using C1(1) C'(1) by simp
  have "elem C' r c = (if r \<in> set (i # is) then to_half fp (dot_float fp A B r c (m_cols A))
                               else elem C r c)" if "r < m_rows C" "c < m_cols C" for r c
    using el el1 that C1(3,4) by auto
  then show ?case using run C' C1 by simp
qed




text \<open>
  C2.  For \<open>C\<close> of shape M x N, \<open>A\<close> of shape M x K and \<open>B\<close> of shape K x N, under any
  layout tags, \<open>hgemm_cpu\<close> returns normally, keeps the shape and layout of \<open>C\<close>, and
  sets every \<open>C(i, j)\<close> to the half conversion of the single-precision sum over
  \<open>k = 0, ..., A.cols() - 1\<close> of \<open>float(A(i, k)) * float(B(k, j))\<close>: the accumulation is a
  fold of float additions, and the conversion to half is applied once, to its result.
\<close>

theorem hgemm_cpu_reference:
  assumes "wf_matrix C" "wf_matrix A" "wf_matrix B"
    and "m_rows A = m_rows C" "m_cols A = m_rows B" "m_cols B = m_cols C"
  shows "\<exists>C'. hgemm_cpu fp C A B = Inr C'
           \<and> m_rows C' = m_rows C \<and> m_cols C' = m_cols C \<and> m_layout C' = m_layout C
           \<and> (\<forall>i < m_rows C. \<forall>j < m_cols C.
                 mat_get C' i j = Inr (to_half fp (dot_float fp A B i j (m_cols A))))"
proof -
  have "\<forall>i \<in> set [0..<m_rows C]. i < m_rows C \<and> i < m_rows A" using assms(4) by simp
  from hgemm_cpu_i_ok[OF assms(1) _ _ this, of B fp] assms(5,6)
  obtain C' where C': "hgemm_cpu_i fp A B [0..<m_rows C] C = Inr C'"
      "m_rows C' = m_rows C" "m_cols C' = m_cols C" "m_layout C' = m_layout C"
      and el: "\<forall>r < m_rows C. \<forall>c < m_cols C.
                elem C' r c = (if r \<in> set [0..<m_rows C] then to_half fp (dot_float fp A B r c (m_cols A))
                               else elem C r c)"
    by auto
  have "mat_get C' i j = Inr (to_half fp (dot_float fp A B i j (m_cols A)))"
    if "i < m_rows C" "j < m_cols C" for i j
    using el that C'(2,3) by (simp add: mat_get_elem)
  then show ?thesis using C' by (simp add: hgemm_cpu_def)
qed

theorem hgemm_cpu_reference_witness:
  "wf_matrix c22 \<and> wf_matrix a22 \<and> wf_matrix b22
   \<and> m_rows a22 = m_rows c22 \<and> m_cols a22 = m_rows b22 \<and> m_cols b22 = m_cols c22
   \<and> (\<exists>C'. hgemm_cpu ieee_ops c22 a22 b22 = Inr C'
           \<and> m_rows C' = m_rows c22 \<and> m_cols C' = m_cols c22 \<and> m_layout C' = m_layout c22
           \<and> (\<forall>i < m_rows c22. \<forall>j < m_cols c22.
                 mat_get C' i j = Inr (to_half ieee_ops (dot_float ieee_ops a22 b22 i j (m_cols a22)))))"
proof -
  have h: "wf_matrix c22" "wf_matrix a22" "wf_matrix b22"
    "m_rows a22 = m_rows c22" "m_cols a22 = m_rows b22" "m_cols b22 = m_cols c22"
    by (simp_all add: wf_matrix_def a22_def b22_def c22_def)
  show ?thesis using h hgemm_cpu_reference[OF h, of ieee_ops] by blast
qed




lemma length_concat_map_upt:
  "length (concat (map (\<lambda>r. map (f r) [0..<m]) [0..<n])) = n * m"
  by (induction n) simp_all

lemma concat_map_nth:
  "r < n \<Longrightarrow> c < m \<Longrightarrow> concat (map (\<lambda>r. map (f r) [0..<m]) [0..<n]) ! (r * m + c) = f r c"
proof (induction n)
  case 0
  then show ?case by simp
next
  case (Suc n)
  show ?case
  proof (cases "r < n")
    case True
    have "r * m + c < Suc r * m" using Suc.prems by simp
    also have "\<dots> \<le> n * m" using True by (intro mult_le_mono1) simp
    finally have "r * m + c < n * m" .
    then show ?thesis using Suc True by (simp add: nth_append length_concat_map_upt)
  next
    case False
    then have "r = n" using Suc.prems by simp
    then show ?thesis using Suc.prems by (simp add: nth_append length_concat_map_upt)
  qed
qed

lemma elem_with_layout:
  assumes "r < m_rows m" "c < m_cols m"
  shows "elem (with_layout l m) r c = elem m r c"
proof (cases l)
  case row_major
  have "elem (with_layout l m) r c
          = concat (map (\<lambda>r. map (\<lambda>c. elem m r c) [0..<m_cols m]) [0..<m_rows m]) ! (r * m_cols m + c)"
    unfolding elem_def[of "with_layout l m"] by (simp add: row_major get_index_def with_layout_def)
  also have "\<dots> = elem m r c" by (rule concat_map_nth[OF assms])
  finally show ?thesis .
next
  case col_major
  have "elem (with_layout l m) r c
          = concat (map (\<lambda>c. map (\<lambda>r. elem m r c) [0..<m_rows m]) [0..<m_cols m]) ! (c * m_rows m + r)"
    unfolding elem_def[of "with_layout l m"] by (simp add: col_major get_index_def with_layout_def)
  also have "\<dots> = elem m r c" by (rule concat_map_nth[OF assms(2,1)])
  finally show ?thesis .
qed

lemma with_layout_shape:
  "m_rows (with_layout l m) = m_rows m" "m_cols (with_layout l m) = m_cols m"
  "m_layout (with_layout l m) = l" "wf_matrix (with_layout l m)"
  by (cases l; simp add: with_layout_def wf_matrix_def length_concat_map_upt mult.commute)+

lemma mat_get_with_layout: "mat_get (with_layout l m) r c = mat_get m r c"
proof (cases "r < m_rows m \<and> c < m_cols m")
  case True
  then show ?thesis
    using elem_with_layout[of r m c l] by (simp add: mat_get_elem with_layout_shape)
next
  case False
  then show ?thesis by (auto simp: mat_get_def with_layout_shape)
qed

lemma hgemm_cpu_k_cong:
  assumes "\<And>r c. mat_get A' r c = mat_get A r c" "\<And>r c. mat_get B' r c = mat_get B r c"
  shows "hgemm_cpu_k fp A' B' i j ks acc = hgemm_cpu_k fp A B i j ks acc"
  by (induction ks arbitrary: acc) (simp_all add: assms cong: sum.case_cong)

lemma hgemm_cpu_j_cong:
  assumes "\<And>r c. mat_get A' r c = mat_get A r c" "\<And>r c. mat_get B' r c = mat_get B r c"
    and "m_cols A' = m_cols A"
  shows "hgemm_cpu_j fp A' B' i js C = hgemm_cpu_j fp A B i js C"
  by (induction js arbitrary: C)
    (simp_all add: assms(3) hgemm_cpu_k_cong[OF assms(1,2)] cong: sum.case_cong)

lemma hgemm_cpu_i_cong:
  assumes "\<And>r c. mat_get A' r c = mat_get A r c" "\<And>r c. mat_get B' r c = mat_get B r c"
    and "m_cols A' = m_cols A"
  shows "hgemm_cpu_i fp A' B' is C = hgemm_cpu_i fp A B is C"
  by (induction "is" arbitrary: C)
    (simp_all add: hgemm_cpu_j_cong[OF assms] cong: sum.case_cong)

text \<open>
  C8.  Storing \<open>A\<close> under the layout tag \<open>la\<close> and \<open>B\<close> under the layout tag \<open>lb\<close>, with
  every logical element \<open>A(i, k)\<close> and \<open>B(k, j)\<close> unchanged (\<open>with_layout\<close> keeps the
  shape and the result of every element access), leaves the result of \<open>hgemm_cpu\<close>
  unchanged.
\<close>

theorem hgemm_cpu_layout_law:
  "m_rows (with_layout la A) = m_rows A \<and> m_cols (with_layout la A) = m_cols A
   \<and> m_layout (with_layout la A) = la
   \<and> mat_get (with_layout la A) = mat_get A
   \<and> m_rows (with_layout lb B) = m_rows B \<and> m_cols (with_layout lb B) = m_cols B
   \<and> m_layout (with_layout lb B) = lb
   \<and> mat_get (with_layout lb B) = mat_get B
   \<and> hgemm_cpu fp C (with_layout la A) (with_layout lb B) = hgemm_cpu fp C A B"
proof -
  have "hgemm_cpu fp C (with_layout la A) (with_layout lb B) = hgemm_cpu fp C A B"
    unfolding hgemm_cpu_def
    by (rule hgemm_cpu_i_cong) (simp_all add: mat_get_with_layout with_layout_shape)
  moreover have "mat_get (with_layout l m) = mat_get m" for l and m :: "'a matrix"
    by (intro ext) (rule mat_get_with_layout)
  ultimately show ?thesis by (simp add: with_layout_shape)
qed

section \<open>The verification\<close>












section \<open>Stores at the ragged edge\<close>

lemma in_extent_lt:
  fixes r :: nat
  assumes "r < M" "c < N"
  shows "r * N + c < M * N"
proof -
  have "r * N + c < Suc r * N" using assms by simp
  also have "\<dots> \<le> M * N" using assms by (intro mult_le_mono1) simp
  finally show ?thesis .
qed

lemma foldl_dom_subset:
  assumes "\<And>d i. dom (f d i) \<subseteq> dom d \<union> S"
  shows "dom (foldl f d xs) \<subseteq> dom d \<union> S"
proof (induction xs arbitrary: d)
  case Nil
  then show ?case by simp
next
  case (Cons x xs)
  have "dom (foldl f (f d x) xs) \<subseteq> dom (f d x) \<union> S" by (rule Cons.IH)
  also have "\<dots> \<subseteq> dom d \<union> S" using assms[of d x] by blast
  finally show ?case by simp
qed

lemma wmma_shared_store_in_extent:
  "dom (wmma_shared_store Map.empty c_frag row0 col0 half_warp_id half_lane M N) \<subseteq> {..<M * N}"
proof -
  have "dom (wmma_shared_store Map.empty c_frag row0 col0 half_warp_id half_lane M N)
          \<subseteq> dom (Map.empty :: nat \<rightharpoonup> 'a) \<union> {..<M * N}"
    unfolding wmma_shared_store_def
  proof (rule foldl_dom_subset)
    fix d :: "nat \<rightharpoonup> 'a" and i
    show "dom (let row = i * 2 + half_warp_id
               in if row0 + row < M \<and> col0 + half_lane < N
                  then d((row0 + row) * N + (col0 + half_lane) \<mapsto> c_frag ! (i * 2))
                  else d)
            \<subseteq> dom d \<union> {..<M * N}"
      using in_extent_lt[of "row0 + (i * 2 + half_warp_id)" M "col0 + half_lane" N]
      by (auto simp: Let_def)
  qed
  then show ?thesis by simp
qed


lemma store_matrix_thread0:
  "dom (store_matrix Map.empty frag 0 0 1 1 0) = {0, 2, 4, 6, 8, 10, 12, 14}"
proof -
  have "store_matrix Map.empty frag 0 0 1 1 0
     = [0 \<mapsto> frag ! 0, Suc (Suc 0) \<mapsto> frag ! 2, 4 \<mapsto> frag ! 4, 6 \<mapsto> frag ! 6,
        8 \<mapsto> frag ! 8, 10 \<mapsto> frag ! 10, 12 \<mapsto> frag ! 12, 14 \<mapsto> frag ! 14]"
    by (simp add: store_matrix_def wmma_tile_def warp_size_def upt_rec Let_def)
  then show ?thesis by auto
qed

text \<open>
  C1 fails on the naive kernel.  With \<open>M = N = K = 1\<close> the thread \<open>(0, 0)\<close> of block
  \<open>(0, 0)\<close> owns the tile at the origin and \<open>store_matrix\<close> stores the even fragment
  entries to the offsets 0, 2, ..., 14 of \<open>C\<close>, which has the single element at offset 0.
  The guarded epilogue of the other kernels stores inside the extent only
  (\<open>wmma_shared_store_in_extent\<close>).
\<close>

theorem naive_store_out_of_extent:
  "naive_tile_origin 0 0 128 4 0 0 = (0, 0)
   \<and> dom (store_matrix Map.empty frag 0 0 1 1 0) = {0, 2, 4, 6, 8, 10, 12, 14}
   \<and> \<not> dom (store_matrix Map.empty frag 0 0 1 1 0) \<subseteq> {..<1 * 1}"
proof -
  have "naive_tile_origin 0 0 128 4 0 0 = (0, 0)"
    by (simp add: naive_tile_origin_def warp_size_def)
  then show ?thesis unfolding store_matrix_thread0 by simp
qed

section \<open>Staging at the ragged edge\<close>

lemma foldl_fun_upd_upt:
  "v < n \<Longrightarrow> foldl (\<lambda>t v. t(dst + v := g v)) lds [0..<n] (dst + v) = g v"
  by (induction n) (auto simp: less_Suc_eq)

lemma vec_copy_nth: "v < vw \<Longrightarrow> vec_copy vw lds dst src off (dst + v) = src ! (off + v)"
  unfolding vec_copy_def by (rule foldl_fun_upd_upt)

lemma wbv_stage_A_chunk_padded:
  assumes "A_off = k0 * M + block_row"
  shows "map (\<lambda>v. wbv_stage_A_chunk zero A A_off block_row k0 M K i lds (i + v))
             [0..<vector_width config_wbv]
           = zero_padded_chunk zero A M K (block_row + i mod block_m config_wbv)
               (k0 + i div block_m config_wbv) (vector_width config_wbv)"
proof -
  define col where "col = i div 256"
  define row where "row = i mod 256"
  define dst where "dst = col * 256 + row"
  have i: "i = dst" by (simp add: col_def row_def dst_def)
  have idx: "A_off + col * M + row + v = (k0 + col) * M + (block_row + row) + v" for v
    by (simp add: assms algebra_simps)
  have unf: "wbv_stage_A_chunk zero A A_off block_row k0 M K i lds
           = (if block_row + row + 16 - 1 < M \<and> k0 + col < K
              then vec_copy 16 lds dst A (A_off + col * M + row)
              else foldl (\<lambda>t v. t(dst + v :=
                     (if block_row + row + v < M \<and> k0 + col < K
                      then A ! (A_off + col * M + row + v) else zero))) lds [0..<16])"
  proof -
    have fb: "(\<lambda>t v. if block_row + row + v < M \<and> k0 + col < K
                            then t(dst + v := A ! (A_off + col * M + row + v))
                            else t(dst + v := zero))
          = (\<lambda>t v. t(dst + v :=
                 (if block_row + row + v < M \<and> k0 + col < K
                  then A ! (A_off + col * M + row + v) else zero)))"
      by (intro ext) simp
    show ?thesis
      unfolding wbv_stage_A_chunk_def Let_def fb[symmetric]
      by (simp add: config_defs col_def row_def dst_def cong: if_cong)
  qed
  have "wbv_stage_A_chunk zero A A_off block_row k0 M K i lds (dst + v)
          = (if block_row + row + v < M \<and> k0 + col < K then A ! ((k0 + col) * M + (block_row + row) + v) else zero)"
    if v: "v < 16" for v
  proof (cases "block_row + row + 16 - 1 < M \<and> k0 + col < K")
    case True
    then have "block_row + row + v < M \<and> k0 + col < K" using v by simp
    moreover have "wbv_stage_A_chunk zero A A_off block_row k0 M K i lds (dst + v)
                     = A ! (A_off + col * M + row + v)"
      unfolding unf using True vec_copy_nth[OF v, of lds dst A "A_off + col * M + row"] by simp
    ultimately show ?thesis by (simp add: idx)
  next
    case False
    then show ?thesis
      unfolding unf using foldl_fun_upd_upt[OF v, of dst _ lds] by (simp add: idx)
  qed
  then have "map (\<lambda>v. wbv_stage_A_chunk zero A A_off block_row k0 M K i lds (dst + v)) [0..<16]
      = map (\<lambda>v. if block_row + row + v < M \<and> k0 + col < K
                  then A ! ((k0 + col) * M + (block_row + row) + v) else zero) [0..<16]"
    by (intro map_cong) simp_all
  then show ?thesis
    unfolding i[symmetric] by (simp add: zero_padded_chunk_def config_defs col_def row_def)
qed


lemma prefetch_stage_A_ragged_regs:
  "map (prefetch_stage_A [a] 0 0 0 1 1 0 256 [g] lds) [0..<16] = map (\<lambda>v. g ! v) [0..<16]"
proof -
  have l: "for_loop 0 4096 4096 body s = body 0 s" for body :: "nat \<Rightarrow> 's \<Rightarrow> 's" and s
    by (simp add: for_loop.simps)
  have "prefetch_stage_A [a] 0 0 0 1 1 0 256 [g] lds = vec_copy 16 lds 0 g 0"
    by (simp add: prefetch_stage_A_def config_defs Let_def l prefetch_load_A_chunk_def
        prefetch_store_A_chunk_def)
  moreover have "vec_copy 16 lds 0 g 0 v = g ! v" if "v < 16" for v
    using vec_copy_nth[OF that, of lds 0 g 0] by simp
  ultimately show ?thesis by simp
qed

lemma wbv_stage_A_ragged:
  "map (wbv_stage_A zero [a] 0 0 0 1 1 0 256 lds) [0..<16] = [a, zero, zero, zero, zero, zero, zero, zero, zero, zero, zero, zero, zero, zero, zero, zero]"
proof -
  have l: "for_loop 0 8192 4096 body s = body 4096 (body 0 s)" for body :: "nat \<Rightarrow> 's \<Rightarrow> 's" and s
    by (simp add: for_loop.simps)
  show ?thesis
    by (simp add: wbv_stage_A_def config_defs Let_def l wbv_stage_A_chunk_def upt_rec)
qed

lemma zero_padded_ragged: "zero_padded_chunk zero [a] 1 1 0 0 16 = [a, zero, zero, zero, zero, zero, zero, zero, zero, zero, zero, zero, zero, zero, zero, zero]"
  by (simp add: zero_padded_chunk_def upt_rec)


text \<open>
  C3 fails on the prefetch kernel.  With \<open>M = N = K = 1\<close> the loader thread 0 of block
  \<open>(0, 0)\<close> stages the chunk at row 0 of tile column 0.  The vector is not wholly in
  bounds and nothing is loaded, so the staged chunk is the content \<open>g\<close> that
  \<^verbatim>\<open>a_reg_buf[0]\<close> had on entry.  The boundary policy asks for \<open>A(0, 0)\<close> followed by
  fifteen zeros, which is what the kernel \<open>wmma_shared_warp_buf_vec\<close> stages (for every
  chunk: \<open>wbv_stage_A_chunk_padded\<close>).
\<close>

theorem prefetch_stage_A_ragged:
  "map (prefetch_stage_A [a] 0 0 0 1 1 0 256 [g] lds) [0..<16] = map (\<lambda>v. g ! v) [0..<16]
   \<and> zero_padded_chunk zero [a] 1 1 0 0 16 = [a, zero, zero, zero, zero, zero, zero, zero, zero, zero, zero, zero, zero, zero, zero, zero]
   \<and> map (wbv_stage_A zero [a] 0 0 0 1 1 0 256 lds) [0..<16] = [a, zero, zero, zero, zero, zero, zero, zero, zero, zero, zero, zero, zero, zero, zero, zero]"
  by (simp only: prefetch_stage_A_ragged_regs wbv_stage_A_ragged zero_padded_ragged)

section \<open>The Hilbert-curve block scheduler\<close>

lemma hilbert_order_ge: "n \<le> 2 ^ hilbert_order k n"
proof (induction k n rule: hilbert_order.induct)
  case (1 k n)
  show ?case
  proof (cases "2 ^ k < n")
    case True
    then show ?thesis using 1 by (subst hilbert_order.simps) simp
  next
    case False
    then show ?thesis by (subst hilbert_order.simps) simp
  qed
qed

lemma hilbert_d2xy_Suc_cases:
  assumes "d < 4 ^ Suc k"
  defines "t \<equiv> d div 4 ^ k" and "p \<equiv> hilbert_d2xy k (d mod 4 ^ k)" and "s \<equiv> (2::nat) ^ k"
  shows "(t = 0 \<and> hilbert_d2xy (Suc k) d = (snd p, fst p))
       \<or> (t = 1 \<and> hilbert_d2xy (Suc k) d = (fst p, snd p + s))
       \<or> (t = 2 \<and> hilbert_d2xy (Suc k) d = (fst p + s, snd p + s))
       \<or> (t = 3 \<and> hilbert_d2xy (Suc k) d = (s - 1 - snd p + s, s - 1 - fst p))"
proof -
  have "t < 4" using assms(1) unfolding t_def by (simp add: less_mult_imp_div_less mult.commute)
  then consider "t = 0" | "t = 1" | "t = 2" | "t = 3" by linarith
  then show ?thesis
  proof cases
    case 1 then show ?thesis using t_def p_def by (simp add: Let_def)
  next
    case 2 then show ?thesis using t_def p_def s_def by (simp add: Let_def)
  next
    case 3 then show ?thesis using t_def p_def s_def by (simp add: Let_def)
  next
    case 4 then show ?thesis using t_def p_def s_def by (simp add: Let_def)
  qed
qed

lemma hilbert_d2xy_range:
  "fst (hilbert_d2xy k d) < 2 ^ k \<and> snd (hilbert_d2xy k d) < 2 ^ k"
proof (induction k arbitrary: d)
  case 0
  then show ?case by simp
next
  case (Suc k)
  have p: "fst (hilbert_d2xy k (d mod 4 ^ k)) < 2 ^ k" "snd (hilbert_d2xy k (d mod 4 ^ k)) < 2 ^ k"
    using Suc[of "d mod 4 ^ k"] by simp_all
  show ?case using p by (auto simp: Let_def)
qed

lemma hilbert_d2xy_inj:
  "d < 4 ^ k \<Longrightarrow> d' < 4 ^ k \<Longrightarrow> hilbert_d2xy k d = hilbert_d2xy k d' \<Longrightarrow> d = d'"
proof (induction k arbitrary: d d')
  case 0
  then show ?case by simp
next
  case (Suc k)
  let ?p = "hilbert_d2xy k (d mod 4 ^ k)" and ?q = "hilbert_d2xy k (d' mod 4 ^ k)"
  let ?s = "(2::nat) ^ k"
  have p: "fst ?p < ?s" "snd ?p < ?s" and q: "fst ?q < ?s" "snd ?q < ?s"
    using hilbert_d2xy_range[of k] by simp_all
  have m: "d mod 4 ^ k < 4 ^ k" "d' mod 4 ^ k < 4 ^ k" by simp_all
  have same: "d div 4 ^ k = d' div 4 ^ k \<and> fst ?p = fst ?q \<and> snd ?p = snd ?q"
    using hilbert_d2xy_Suc_cases[OF Suc.prems(1)] hilbert_d2xy_Suc_cases[OF Suc.prems(2)]
      Suc.prems(3) p q
    by (elim disjE conjE) (simp_all, linarith+)
  then have "?p = ?q" by (simp add: prod_eq_iff)
  then have "d mod 4 ^ k = d' mod 4 ^ k" using Suc.IH[OF m] by simp
  then show ?case using same by (metis div_mult_mod_eq)
qed


lemma hilbert_d2xy_image:
  "hilbert_d2xy k ` {..<4 ^ k} = {..<2 ^ k} \<times> {..<2 ^ k}"
proof (rule card_subset_eq)
  show "finite ({..<(2::nat) ^ k} \<times> {..<(2::nat) ^ k})" by simp
  show "hilbert_d2xy k ` {..<4 ^ k} \<subseteq> {..<2 ^ k} \<times> {..<2 ^ k}"
  proof
    fix p assume "p \<in> hilbert_d2xy k ` {..<4 ^ k}"
    then obtain d where "p = hilbert_d2xy k d" by blast
    then show "p \<in> {..<2 ^ k} \<times> {..<2 ^ k}"
      using hilbert_d2xy_range[of k d] by (simp add: mem_Times_iff)
  qed
  have "inj_on (hilbert_d2xy k) {..<4 ^ k}"
    by (rule inj_onI) (auto dest: hilbert_d2xy_inj)
  then have "card (hilbert_d2xy k ` {..<4 ^ k}) = 4 ^ k" by (simp add: card_image)
  also have "\<dots> = (2::nat) ^ k * 2 ^ k"
    by (simp add: power_mult_distrib[symmetric])
  finally show "card (hilbert_d2xy k ` {..<4 ^ k}) = card ({..<(2::nat) ^ k} \<times> {..<(2::nat) ^ k})"
    by simp
qed

lemma hilbert_cells_distinct: "distinct (hilbert_cells gm gn)"
proof -
  have "inj_on (hilbert_d2xy k) (set [0..<4 ^ k])" for k
    by (rule inj_onI) (auto dest: hilbert_d2xy_inj)
  then show ?thesis
    by (simp add: hilbert_cells_def Let_def distinct_map)
qed

lemma hilbert_cells_set: "set (hilbert_cells gm gn) = {..<gm} \<times> {..<gn}"
proof -
  define k where "k = hilbert_order 0 (max gm gn)"
  have le: "gm \<le> 2 ^ k" "gn \<le> 2 ^ k"
    using hilbert_order_ge[of "max gm gn" 0] by (simp_all add: k_def)
  have "set (map (hilbert_d2xy k) [0..<4 ^ k]) = {..<2 ^ k} \<times> {..<2 ^ k}"
    using hilbert_d2xy_image[of k] by (simp add: atLeast0LessThan)
  then have "set (hilbert_cells gm gn) = {p \<in> {..<2 ^ k} \<times> {..<2 ^ k}. fst p < gm \<and> snd p < gn}"
    by (simp add: hilbert_cells_def Let_def k_def)
  also have "\<dots> = {..<gm} \<times> {..<gn}" using le by (auto simp: mem_Times_iff)
  finally show ?thesis .
qed

lemma hilbert_cells_length: "length (hilbert_cells gm gn) = gm * gn"
  using distinct_card[OF hilbert_cells_distinct, of gm gn] by (simp add: hilbert_cells_set)

lemma scale_inj:
  fixes bm bn :: nat
  assumes "0 < bm" "0 < bn" "(fst p * bm, snd p * bn) = (fst q * bm, snd q * bn)"
  shows "p = q"
  using assms by (simp add: prod_eq_iff)

lemma hilbert_cells_2_3:
  "hilbert_cells 2 3 = [(0, 0), (1, 0), (1, 1), (0, 1), (0, 2), (1, 2)]"
  by code_simp

text \<open>
  C5.  For block tiles \<open>bm, bn \<ge> 1\<close> and any grid, \<open>hilbert_tile_mapping\<close> restricted to
  the tile indices below \<open>grid_m * grid_n\<close> is a bijection onto the block origins: every
  index yields a pair \<open>(r * bm, c * bn)\<close> with \<open>r < grid_m\<close> and \<open>c < grid_n\<close> (so it is
  aligned to the tile and below \<open>grid_m * bm\<close> and \<open>grid_n * bn\<close>), distinct indices yield
  distinct pairs, and every block origin is reached.
\<close>

theorem hilbert_tile_mapping_bijection:
  assumes "0 < bm" "0 < bn"
  shows "(\<forall>t < gm * gn. \<exists>r c. r < gm \<and> c < gn
            \<and> hilbert_tile_mapping bm bn t gm gn = Some (r * bm, c * bn)
            \<and> r * bm < gm * bm \<and> c * bn < gn * bn)
       \<and> inj_on (\<lambda>t. hilbert_tile_mapping bm bn t gm gn) {..<gm * gn}
       \<and> (\<lambda>t. hilbert_tile_mapping bm bn t gm gn) ` {..<gm * gn}
            = {Some (r * bm, c * bn) | r c. r < gm \<and> c < gn}"
proof -
  let ?cells = "hilbert_cells gm gn"
  have len: "length ?cells = gm * gn" by (rule hilbert_cells_length)
  have val: "hilbert_tile_mapping bm bn t gm gn
               = Some (fst (?cells ! t) * bm, snd (?cells ! t) * bn)" if "t < gm * gn" for t
    using that len by (simp add: hilbert_tile_mapping_def Let_def)
  have mem: "fst (?cells ! t) < gm \<and> snd (?cells ! t) < gn" if "t < gm * gn" for t
  proof -
    have "?cells ! t \<in> set ?cells" using that len by simp
    then show ?thesis unfolding hilbert_cells_set by (simp add: mem_Times_iff)
  qed
  have 1: "\<forall>t < gm * gn. \<exists>r c. r < gm \<and> c < gn
            \<and> hilbert_tile_mapping bm bn t gm gn = Some (r * bm, c * bn)
            \<and> r * bm < gm * bm \<and> c * bn < gn * bn"
    using val mem assms by (metis mult_less_cancel2)
  have 2: "inj_on (\<lambda>t. hilbert_tile_mapping bm bn t gm gn) {..<gm * gn}"
  proof (rule inj_onI)
    fix t u
    assume t: "t \<in> {..<gm * gn}" and u: "u \<in> {..<gm * gn}"
      and e: "hilbert_tile_mapping bm bn t gm gn = hilbert_tile_mapping bm bn u gm gn"
    then have "(fst (?cells ! t) * bm, snd (?cells ! t) * bn) = (fst (?cells ! u) * bm, snd (?cells ! u) * bn)"
      using val by simp
    then have "?cells ! t = ?cells ! u" by (rule scale_inj[OF assms])
    then show "t = u"
      using t u len hilbert_cells_distinct[of gm gn] by (simp add: nth_eq_iff_index_eq)
  qed
  have 3: "(\<lambda>t. hilbert_tile_mapping bm bn t gm gn) ` {..<gm * gn}
            = {Some (r * bm, c * bn) | r c. r < gm \<and> c < gn}"
  proof (intro equalityI subsetI)
    fix v assume "v \<in> (\<lambda>t. hilbert_tile_mapping bm bn t gm gn) ` {..<gm * gn}"
    then show "v \<in> {Some (r * bm, c * bn) | r c. r < gm \<and> c < gn}"
      using val mem by auto
  next
    fix v assume "v \<in> {Some (r * bm, c * bn) | r c. r < gm \<and> c < gn}"
    then obtain r c where rc: "r < gm" "c < gn" "v = Some (r * bm, c * bn)" by blast
    then have "(r, c) \<in> set ?cells" unfolding hilbert_cells_set by simp
    then obtain t where t: "t < length ?cells" "?cells ! t = (r, c)"
      by (auto simp: in_set_conv_nth)
    then have "hilbert_tile_mapping bm bn t gm gn = v" using val[of t] len rc(3) by simp
    then show "v \<in> (\<lambda>t. hilbert_tile_mapping bm bn t gm gn) ` {..<gm * gn}"
      using t(1) len by auto
  qed
  show ?thesis using 1 2 3 by blast
qed


theorem hilbert_tile_mapping_bijection_witness:
  "(0::nat) < 256
   \<and> map (\<lambda>t. hilbert_tile_mapping 256 256 t 2 3) [0..<2 * 3]
       = [Some (0, 0), Some (256, 0), Some (256, 256), Some (0, 256), Some (0, 512), Some (256, 512)]
   \<and> (\<exists>r c. r < 2 \<and> c < 3 \<and> hilbert_tile_mapping 256 256 5 2 3 = Some (r * 256, c * 256)
          \<and> r * 256 < 2 * 256 \<and> c * 256 < 3 * 256)
   \<and> inj_on (\<lambda>t. hilbert_tile_mapping 256 256 t 2 3) {..<2 * 3}
   \<and> (\<lambda>t. hilbert_tile_mapping 256 256 t 2 3) ` {..<2 * 3}
        = {Some (r * 256, c * 256) | r c. r < 2 \<and> c < 3}"
proof -
  have h: "(0::nat) < 256" by simp
  have m: "map (\<lambda>t. hilbert_tile_mapping 256 256 t 2 3) [0..<2 * 3]
       = [Some (0, 0), Some (256, 0), Some (256, 256), Some (0, 256), Some (0, 512), Some (256, 512)]"
    by (simp add: hilbert_tile_mapping_def hilbert_cells_2_3 upt_rec)
  have "(5::nat) < 2 * 3" by simp
  then show ?thesis
    using h m hilbert_tile_mapping_bijection[OF h h, of 2 3] by blast
qed

end
